theory Spec2Isabelle
  imports Main
begin

section \<open>Time: dates, datetimes and time zones\<close>

text \<open>
  The source works with Python's \<^verbatim>\<open>datetime.date\<close>, \<^verbatim>\<open>datetime.datetime\<close> and
  \<^verbatim>\<open>datetime.timedelta\<close>. A date is modelled by its proleptic Gregorian ordinal
  (\<^verbatim>\<open>date.toordinal()\<close>) and a timedelta by a number of microseconds (possibly
  negative). A datetime is naive or aware. A naive datetime is given by the microseconds
  of its wall clock since midnight of ordinal 0; an aware datetime by the microseconds of
  its time in UTC, counted from the same origin. Python's range limits (years 1 to 9999)
  are not modelled.
\<close>

type_synonym date = int
type_synonym timedelta = int

datatype datetime = Naive int | Aware int

definition day_us :: int where
  "day_us = 86400000000"

text \<open>The number a datetime is given by, and the two tests of \<^verbatim>\<open>django.utils.timezone\<close>.\<close>

definition stamp :: "datetime \<Rightarrow> int" where
  "stamp dt = (case dt of Naive w \<Rightarrow> w | Aware u \<Rightarrow> u)"

definition is_aware :: "datetime \<Rightarrow> bool" where
  "is_aware dt = (case dt of Naive w \<Rightarrow> False | Aware u \<Rightarrow> True)"

definition is_naive :: "datetime \<Rightarrow> bool" where
  "is_naive dt = (case dt of Naive w \<Rightarrow> True | Aware u \<Rightarrow> False)"

text \<open>
  Python compares two naive datetimes by their wall clocks and two aware datetimes by
  their times in UTC, and raises \<^verbatim>\<open>TypeError\<close> when one is naive and the other aware.
  Adding a timedelta keeps the kind of the datetime.
\<close>

datatype error = TypeError

definition dt_le :: "datetime \<Rightarrow> datetime \<Rightarrow> error + bool" where
  "dt_le a b = (if is_aware a = is_aware b then Inr (stamp a \<le> stamp b) else Inl TypeError)"

definition dt_less :: "datetime \<Rightarrow> datetime \<Rightarrow> error + bool" where
  "dt_less a b = (if is_aware a = is_aware b then Inr (stamp a < stamp b) else Inl TypeError)"

definition dt_add :: "datetime \<Rightarrow> timedelta \<Rightarrow> datetime" where
  "dt_add dt delta = (case dt of Naive w \<Rightarrow> Naive (w + delta) | Aware u \<Rightarrow> Aware (u + delta))"

text \<open>An argument of type \<^verbatim>\<open>date | datetime\<close>.\<close>

datatype date_or_datetime = Date date | Datetime datetime

text \<open>The calendar day of a wall clock, or of a time in UTC.\<close>

definition date_of :: "int \<Rightarrow> date" where
  "date_of w = w div day_us"

text \<open>
  The Django settings the code reads: \<^verbatim>\<open>USE_TZ\<close>, and the current time zone, which
  \<^verbatim>\<open>make_aware\<close> and \<^verbatim>\<open>make_naive\<close> use. The time zone is modelled by its offset from
  UTC in microseconds (local time minus UTC), taken as constant: transitions of daylight
  saving time are not modelled.
\<close>

record settings =
  USE_TZ :: bool
  tz_offset :: int

definition make_aware :: "settings \<Rightarrow> datetime \<Rightarrow> datetime" where
  "make_aware st dt = Aware (stamp dt - tz_offset st)"

definition make_naive :: "settings \<Rightarrow> datetime \<Rightarrow> datetime" where
  "make_naive st dt = Naive (stamp dt + tz_offset st)"

text \<open>
  \<^verbatim>\<open>default_aware\<close> makes a naive datetime aware, and \<^verbatim>\<open>default_naive\<close> an aware one
  naive, if \<^verbatim>\<open>USE_TZ\<close> is set; otherwise they return their argument.
\<close>

definition default_aware :: "settings \<Rightarrow> datetime \<Rightarrow> datetime" where
  "default_aware st dt = (if USE_TZ st \<and> is_naive dt then make_aware st dt else dt)"

definition default_naive :: "settings \<Rightarrow> datetime \<Rightarrow> datetime" where
  "default_naive st dt = (if USE_TZ st \<and> is_aware dt then make_naive st dt else dt)"

text \<open>
  \<^verbatim>\<open>as_datetime(d, end)\<close>: a bare date becomes the naive datetime at 0:00:00 of that day,
  or at 23:59:59 when \<^verbatim>\<open>end\<close> is true, and goes through \<^verbatim>\<open>default_aware\<close>; a datetime
  goes through \<^verbatim>\<open>default_aware\<close>.
\<close>

definition as_datetime :: "settings \<Rightarrow> date_or_datetime \<Rightarrow> bool \<Rightarrow> datetime" where
  "as_datetime st d end_flag =
     (case d of
        Date n \<Rightarrow> default_aware st (Naive (n * day_us + (if end_flag then 86399000000 else 0)))
      | Datetime dt \<Rightarrow> default_aware st dt)"

text \<open>
  The calendar arithmetic of Python's \<^verbatim>\<open>datetime\<close> module that \<^verbatim>\<open>max_future_date\<close>
  needs: the year of an ordinal (\<^verbatim>\<open>_ord2ymd\<close>) and the ordinal of January 1 of a year
  (\<^verbatim>\<open>_ymd2ord(y, 1, 1)\<close>).
\<close>

definition days_before_year :: "int \<Rightarrow> int" where
  "days_before_year y = (y - 1) * 365 + (y - 1) div 4 - (y - 1) div 100 + (y - 1) div 400"

definition year_of :: "date \<Rightarrow> int" where
  "year_of n0 =
     (let n = n0 - 1;
          n400 = n div 146097; n = n mod 146097;
          n100 = n div 36524; n = n mod 36524;
          n4 = n div 1461; n = n mod 1461;
          n1 = n div 365;
          y = n400 * 400 + 1 + n100 * 100 + n4 * 4 + n1
      in if n1 = 4 \<or> n100 = 4 then y - 1 else y)"

definition jan_first :: "int \<Rightarrow> date" where
  "jan_first y = days_before_year y + 1"

text \<open>
  \<^verbatim>\<open>max_future_date()\<close> reads the ambient current date; the model takes it as the argument
  \<open>today\<close>. The result is a naive datetime.
\<close>

definition max_future_date :: "date \<Rightarrow> datetime" where
  "max_future_date today = Naive (jan_first (year_of today + 10) * day_us)"

section \<open>Records and occurrences\<close>

text \<open>
  A \<^verbatim>\<open>BaseOccurrence\<close> is a row as Django loads it. Django hands the code aware
  datetimes (in UTC) for the datetime columns when \<^verbatim>\<open>USE_TZ\<close> is set and naive ones
  otherwise, so that the datetimes of one run are all of one kind; the record holds the
  number of each datetime, and \<open>from_db\<close> is the datetime the code sees. \<^verbatim>\<open>start\<close> is a
  required column, but the code guards against an instance whose \<^verbatim>\<open>start\<close> is not set,
  so it is optional here; \<^verbatim>\<open>end\<close> and \<^verbatim>\<open>repeat_until\<close> are nullable; \<^verbatim>\<open>repeat\<close> is a
  text field whose empty string means no repetition. \<^verbatim>\<open>pk\<close> is the primary key.
\<close>

record BaseOccurrence =
  pk :: nat
  start :: "int option"
  end_dt :: "int option"
  repeat :: string
  repeat_until :: "date option"

definition from_db :: "settings \<Rightarrow> int \<Rightarrow> datetime" where
  "from_db st x = (if USE_TZ st then Aware x else Naive x)"

text \<open>
  \<^verbatim>\<open>OccurrenceTuple(start, end, instance)\<close>; \<^verbatim>\<open>occurrence_data\<close> is the record itself.
  The datetimes of the occurrences of one run are of one kind too, aware if \<^verbatim>\<open>USE_TZ\<close> is
  set (they are field values, or come out of \<^verbatim>\<open>default_aware\<close>) and naive otherwise; an
  occurrence holds their numbers.
\<close>

datatype OccurrenceTuple =
  OccurrenceTuple (occ_start: int) (occ_end: "int option") (occ_instance: BaseOccurrence)

definition occurrence_data :: "BaseOccurrence \<Rightarrow> BaseOccurrence" where
  "occurrence_data self = self"

definition REPEAT_MAX :: int where
  "REPEAT_MAX = 200"

section \<open>The rule-expansion capability\<close>

text \<open>
  \<^verbatim>\<open>get_repeater\<close> builds a \<^verbatim>\<open>dateutil\<close> rule set from the rule string and the naive
  start, and \<^verbatim>\<open>all_occurrences\<close> asks it for the instants \<^verbatim>\<open>between(after, before,
  inc=True)\<close>, which \<^verbatim>\<open>dateutil\<close> returns as a list. \<^verbatim>\<open>dateutil\<close> is not part of the
  repository: the capability is a parameter of the model, taking the rule string, the
  start of the rule and the two bounds, all naive and given by their wall clocks.
\<close>

type_synonym rrule_capability = "string \<Rightarrow> int \<Rightarrow> int \<Rightarrow> int \<Rightarrow> int list"

text \<open>
  The properties of the capability that theorems rely on, each stated where it is used:
  the instants are strictly ascending, lie within the two bounds (inclusive), and are not
  before the start of the rule. \<^verbatim>\<open>dateutil\<close> drops the microseconds of the start of a
  rule, so the last property is stated for the start taken to the whole second.
\<close>

definition rr_ascending :: "rrule_capability \<Rightarrow> bool" where
  "rr_ascending rr = (\<forall>rule dtstart a b. sorted_wrt (<) (rr rule dtstart a b))"

definition rr_within :: "rrule_capability \<Rightarrow> bool" where
  "rr_within rr = (\<forall>rule dtstart a b. list_all (\<lambda>t. a \<le> t \<and> t \<le> b) (rr rule dtstart a b))"


text \<open>
  A concrete capability for running the model: a rule that repeats at a fixed interval
  from the start of the rule, taken to the whole second, as \<^verbatim>\<open>FREQ=DAILY\<close> and
  \<^verbatim>\<open>FREQ=WEEKLY\<close> do on naive datetimes. It knows these two rules and has no instant for
  any other rule string.
\<close>

definition fixed_interval_between :: "int \<Rightarrow> int \<Rightarrow> int \<Rightarrow> int \<Rightarrow> int list" where
  "fixed_interval_between step dtstart a b =
     filter (\<lambda>t. a \<le> t)
       (map (\<lambda>k. dtstart + int k * step) [0 ..< nat ((b - dtstart) div step + 1)])"

definition interval_rrule :: rrule_capability where
  "interval_rrule rule dtstart a b =
     (if rule = ''RRULE:FREQ=DAILY''
      then fixed_interval_between day_us (dtstart - dtstart mod 1000000) a b
      else if rule = ''RRULE:FREQ=WEEKLY''
      then fixed_interval_between (7 * day_us) (dtstart - dtstart mod 1000000) a b
      else [])"

section \<open>Expansion of one record: \<^verbatim>\<open>BaseOccurrence.all_occurrences\<close>\<close>

text \<open>
  The test of the branch for a record without a repeat rule, with Python's order of
  evaluation: \<^verbatim>\<open>or\<close> and \<^verbatim>\<open>and\<close> stop at the first operand that decides, and a
  comparison is made, and can raise, only if it is reached.
\<close>

definition from_test :: "datetime \<Rightarrow> datetime option \<Rightarrow> datetime option \<Rightarrow> error + bool" where
  "from_test s e from_date =
     (case from_date of
        None \<Rightarrow> Inr True
      | Some f \<Rightarrow>
          (case dt_le f s of
             Inl err \<Rightarrow> Inl err
           | Inr True \<Rightarrow> Inr True
           | Inr False \<Rightarrow> (case e of None \<Rightarrow> Inr False | Some e' \<Rightarrow> dt_le f e')))"

definition to_test :: "datetime \<Rightarrow> datetime option \<Rightarrow> error + bool" where
  "to_test s to_date = (case to_date of None \<Rightarrow> Inr True | Some t \<Rightarrow> dt_le s t)"

definition in_range ::
  "datetime \<Rightarrow> datetime option \<Rightarrow> datetime option \<Rightarrow> datetime option \<Rightarrow> error + bool" where
  "in_range s e from_date to_date =
     (case from_test s e from_date of
        Inl err \<Rightarrow> Inl err
      | Inr False \<Rightarrow> Inr False
      | Inr True \<Rightarrow> to_test s to_date)"

text \<open>
  The loop over the instants of the repeater: \<open>count\<close> is incremented for each instant
  taken, and the generator returns as soon as it exceeds \<open>limit\<close>. The instants are
  naive and go through \<^verbatim>\<open>default_aware\<close>.
\<close>

fun repeat_loop ::
  "settings \<Rightarrow> int \<Rightarrow> int \<Rightarrow> timedelta \<Rightarrow> BaseOccurrence \<Rightarrow> int list \<Rightarrow> OccurrenceTuple list" where
  "repeat_loop st limit count delta self [] = []"
| "repeat_loop st limit count delta self (t # repeater) =
     (if count + 1 > limit then []
      else OccurrenceTuple (stamp (default_aware st (Naive t)))
             (Some (stamp (dt_add (default_aware st (Naive t)) delta)))
             (occurrence_data self)
           # repeat_loop st limit (count + 1) delta self repeater)"

text \<open>
  The duration of the first occurrence, zero when there is no end. \<^verbatim>\<open>start\<close> and \<^verbatim>\<open>end\<close>
  are field values, of one kind, and Python subtracts their numbers.
\<close>

definition occ_delta :: "BaseOccurrence \<Rightarrow> int \<Rightarrow> timedelta" where
  "occ_delta self s = (case end_dt self of Some e \<Rightarrow> e - s | None \<Rightarrow> 0)"

text \<open>
  The lower search bound of the repeating branch: not before the first occurrence, then
  moved back by the occurrence length.
\<close>

definition search_from ::
  "settings \<Rightarrow> BaseOccurrence \<Rightarrow> int \<Rightarrow> datetime option \<Rightarrow> error + datetime" where
  "search_from st self s from_date =
     (case from_date of
        None \<Rightarrow> Inr (dt_add (from_db st s) (- occ_delta self s))
      | Some f \<Rightarrow>
          (case dt_less f (from_db st s) of
             Inl err \<Rightarrow> Inl err
           | Inr earlier \<Rightarrow>
               Inr (dt_add (if earlier then from_db st s else f) (- occ_delta self s))))"

text \<open>
  The upper search bound of the repeating branch: the end of the \<^verbatim>\<open>repeat_until\<close> day
  when it is set and earlier than \<^verbatim>\<open>to_date\<close> (or there is no \<^verbatim>\<open>to_date\<close>), else
  \<^verbatim>\<open>to_date\<close>, else the far-future default.
\<close>

definition search_to ::
  "settings \<Rightarrow> date \<Rightarrow> BaseOccurrence \<Rightarrow> datetime option \<Rightarrow> error + datetime" where
  "search_to st today self to_date =
     (case repeat_until self of
        Some u \<Rightarrow>
          (case to_date of
             None \<Rightarrow> Inr (as_datetime st (Date u) True)
           | Some t \<Rightarrow>
               (case dt_less (as_datetime st (Date u) True) t of
                  Inl err \<Rightarrow> Inl err
                | Inr earlier \<Rightarrow> Inr (if earlier then as_datetime st (Date u) True else t)))
      | None \<Rightarrow>
          (case to_date of
             None \<Rightarrow> Inr (default_aware st (max_future_date today))
           | Some t \<Rightarrow> Inr t))"

text \<open>
  The list that \<^verbatim>\<open>repeater.between(...)\<close> returns in the repeating branch. The rule is
  built from the naive start, so its instants are naive; \<^verbatim>\<open>dateutil\<close> compares them with
  the two bounds, which raises \<^verbatim>\<open>TypeError\<close> when a bound is still aware after
  \<^verbatim>\<open>default_naive\<close>.
\<close>

definition repeater_between ::
  "settings \<Rightarrow> rrule_capability \<Rightarrow> date \<Rightarrow> BaseOccurrence \<Rightarrow> int \<Rightarrow> datetime option
     \<Rightarrow> datetime option \<Rightarrow> error + int list" where
  "repeater_between st rr today self s from_date to_date =
     (case search_from st self s from_date of
        Inl err \<Rightarrow> Inl err
      | Inr a \<Rightarrow>
          (case search_to st today self to_date of
             Inl err \<Rightarrow> Inl err
           | Inr b \<Rightarrow>
               if is_naive (default_naive st a) \<and> is_naive (default_naive st b)
               then Inr (rr (repeat self) (stamp (default_naive st (from_db st s)))
                           (stamp (default_naive st a)) (stamp (default_naive st b)))
               else Inl TypeError))"

text \<open>
  \<^verbatim>\<open>BaseOccurrence.all_occurrences(from_date, to_date, limit)\<close>, the generator read as the
  list of what it yields, or as the error it raises. Every comparison that can raise is
  made before the first occurrence is yielded, so a run that raises yields nothing.
\<close>

definition all_occurrences ::
  "settings \<Rightarrow> rrule_capability \<Rightarrow> date \<Rightarrow> BaseOccurrence \<Rightarrow> date_or_datetime option
     \<Rightarrow> date_or_datetime option \<Rightarrow> int \<Rightarrow> error + OccurrenceTuple list" where
  "all_occurrences st rr today self from_date0 to_date0 limit =
     (case start self of
        None \<Rightarrow> Inr []
      | Some s \<Rightarrow>
          let from_date = map_option (\<lambda>d. as_datetime st d False) from_date0;
              to_date = map_option (\<lambda>d. as_datetime st d True) to_date0
          in if repeat self = [] then
               (case in_range (from_db st s) (map_option (from_db st) (end_dt self))
                       from_date to_date of
                  Inl err \<Rightarrow> Inl err
                | Inr True \<Rightarrow> Inr [OccurrenceTuple s (end_dt self) (occurrence_data self)]
                | Inr False \<Rightarrow> Inr [])
             else
               (case repeater_between st rr today self s from_date to_date of
                  Inl err \<Rightarrow> Inl err
                | Inr repeater \<Rightarrow>
                    Inr (repeat_loop st limit 0 (occ_delta self s) self repeater)))"

text \<open>What a run has yielded: nothing, if it raised.\<close>

definition yielded :: "error + 'a list \<Rightarrow> 'a list" where
  "yielded r = (case r of Inl err \<Rightarrow> [] | Inr occs \<Rightarrow> occs)"

text \<open>
  A bound that the code can compare with the datetimes of the record: with \<^verbatim>\<open>USE_TZ\<close>
  set every bound can, as \<^verbatim>\<open>as_datetime\<close> makes it aware; without, the source assumes
  that only naive datetimes are used, and an aware bound cannot.
\<close>

definition comparable :: "settings \<Rightarrow> date_or_datetime option \<Rightarrow> bool" where
  "comparable st bound =
     (case bound of
        None \<Rightarrow> True
      | Some (Date n) \<Rightarrow> True
      | Some (Datetime dt) \<Rightarrow> USE_TZ st \<or> is_naive dt)"

section \<open>The span test of the specification\<close>

text \<open>
  The intersection test in the words of the specification, for comparison with the test
  the code makes: the record's end (or its start if it has no end) is not before the lower
  bound, if one is given, and its start is not after the upper bound, if one is given.
  All four are the numbers of datetimes of one kind.
\<close>

definition spec_intersects :: "int \<Rightarrow> int option \<Rightarrow> int option \<Rightarrow> int option \<Rightarrow> bool" where
  "spec_intersects s e from_bound to_bound =
     ((case from_bound of None \<Rightarrow> True | Some f \<Rightarrow> (case e of None \<Rightarrow> s | Some e' \<Rightarrow> e') \<ge> f) \<and>
      (case to_bound of None \<Rightarrow> True | Some t \<Rightarrow> s \<le> t))"

section \<open>The approximate range filter\<close>

text \<open>
  A queryset is modelled by the list of its rows. \<^verbatim>\<open>filter_from\<close> keeps the rows that
  satisfy the disjunction of three \<^verbatim>\<open>Q\<close> objects; \<open>q_from\<close> is that disjunction on one row.
  The lookups are Django's: a comparison with a null column is false; a datetime column
  is compared with a datetime of its kind (aware with \<^verbatim>\<open>USE_TZ\<close> set, as
  \<^verbatim>\<open>as_datetime\<close> returns it, and naive otherwise); and the lookup
  \<^verbatim>\<open>repeat_until__gte=from_date\<close> on the date column compares with the date of the
  datetime given, which Django takes in local time if the datetime is aware and
  \<^verbatim>\<open>USE_TZ\<close> is set. What a database backend does with an aware datetime when \<^verbatim>\<open>USE_TZ\<close>
  is not set is not modelled.
\<close>

definition q_from :: "settings \<Rightarrow> BaseOccurrence \<Rightarrow> datetime \<Rightarrow> bool" where
  "q_from st row from_date =
     ((case end_dt row of None \<Rightarrow> False | Some e \<Rightarrow> e \<ge> stamp from_date) \<or>
      (case start row of None \<Rightarrow> False | Some s \<Rightarrow> s \<ge> stamp from_date) \<or>
      (repeat row \<noteq> [] \<and>
        ((case repeat_until row of
            None \<Rightarrow> False
          | Some u \<Rightarrow> u \<ge> date_of (stamp (default_naive st from_date))) \<or>
         repeat_until row = None)))"

definition filter_from ::
  "settings \<Rightarrow> BaseOccurrence list \<Rightarrow> date_or_datetime \<Rightarrow> BaseOccurrence list" where
  "filter_from st qs from_date =
     remdups (filter (\<lambda>row. q_from st row (as_datetime st from_date False)) qs)"

text \<open>
  \<^verbatim>\<open>OccurrenceQuerySet.for_period\<close> without \<^verbatim>\<open>exact\<close>: the filter on \<^verbatim>\<open>to_date\<close>, then
  \<^verbatim>\<open>filter_from\<close>.
\<close>

definition for_period ::
  "settings \<Rightarrow> BaseOccurrence list \<Rightarrow> date_or_datetime option \<Rightarrow> date_or_datetime option
     \<Rightarrow> BaseOccurrence list" where
  "for_period st qs from_date to_date =
     (let filtered_qs =
            (case to_date of
               None \<Rightarrow> qs
             | Some t \<Rightarrow>
                 remdups (filter (\<lambda>row. case start row of None \<Rightarrow> False
                                          | Some s \<Rightarrow> s \<le> stamp (as_datetime st t True)) qs))
      in case from_date of
           None \<Rightarrow> filtered_qs
         | Some f \<Rightarrow> filter_from st filtered_qs f)"

section \<open>Merging: \<^verbatim>\<open>combine_occurrences\<close>\<close>

text \<open>
  \<^verbatim>\<open>heapq.merge(*iterables, key=...)\<close> of the Python standard library keeps one heap
  entry \<^verbatim>\<open>[key(value), order, value]\<close> for each input that is not exhausted, \<^verbatim>\<open>order\<close>
  being the position of the input; it yields the value of the least entry (least key,
  then least position) and replaces the entry by the next value of the same input.
  \<open>pop_least\<close> is that step on the list of the inputs: the value yielded and the inputs
  that remain, or \<open>None\<close> when every input is exhausted.
\<close>

fun pop_least :: "('a \<Rightarrow> 'k::linorder) \<Rightarrow> 'a list list \<Rightarrow> ('a \<times> 'a list list) option" where
  "pop_least key [] = None"
| "pop_least key ([] # its) =
     (case pop_least key its of
        None \<Rightarrow> None
      | Some (y, its') \<Rightarrow> Some (y, [] # its'))"
| "pop_least key ((x # xs) # its) =
     (case pop_least key its of
        None \<Rightarrow> Some (x, xs # its)
      | Some (y, its') \<Rightarrow>
          if key x \<le> key y then Some (x, xs # its) else Some (y, (x # xs) # its'))"

lemma pop_least_length:
  "pop_least key its = Some (x, its') \<Longrightarrow> Suc (length (concat its')) = length (concat its)"
  by (induction key its arbitrary: x its' rule: pop_least.induct)
     (auto split: option.splits if_splits)

function heapq_merge :: "('a \<Rightarrow> 'k::linorder) \<Rightarrow> 'a list list \<Rightarrow> 'a list" where
  "heapq_merge key its =
     (case pop_least key its of
        None \<Rightarrow> []
      | Some (x, its') \<Rightarrow> x # heapq_merge key its')"
  by pat_completeness auto
termination
  by (relation "measure (\<lambda>(key, its). length (concat its))")
     (auto dest: pop_least_length)

declare heapq_merge.simps [simp del]

text \<open>
  The loop of \<^verbatim>\<open>combine_occurrences\<close> under a limit: \<^verbatim>\<open>enumerate\<close> counts from \<open>i = 0\<close>,
  and the generator returns at the first index that reaches the limit.
\<close>

fun limit_loop :: "int \<Rightarrow> int \<Rightarrow> 'a list \<Rightarrow> 'a list" where
  "limit_loop limit i [] = []"
| "limit_loop limit i (occurrence # merged) =
     (if i \<ge> limit then [] else occurrence # limit_loop limit (i + 1) merged)"

definition combine_occurrences :: "OccurrenceTuple list list \<Rightarrow> int option \<Rightarrow> OccurrenceTuple list" where
  "combine_occurrences generators limit =
     (let merged = heapq_merge occ_start generators
      in case limit of
           None \<Rightarrow> merged
         | Some l \<Rightarrow> limit_loop l 0 merged)"

text \<open>
  \<^verbatim>\<open>BaseQuerySet.all_occurrences\<close>: the occurrences of the rows that \<^verbatim>\<open>for_period\<close>
  keeps, merged. Each row is expanded with the default limit \<^verbatim>\<open>REPEAT_MAX\<close>.
  \<^verbatim>\<open>heapq.merge\<close> asks every generator for its first item before it yields anything, so
  the run raises if one of them does.
\<close>

fun first_error :: "(error + 'a) list \<Rightarrow> error option" where
  "first_error [] = None"
| "first_error (Inl err # gens) = Some err"
| "first_error (Inr occs # gens) = first_error gens"

definition qs_all_occurrences ::
  "settings \<Rightarrow> rrule_capability \<Rightarrow> date \<Rightarrow> BaseOccurrence list \<Rightarrow> date_or_datetime option
     \<Rightarrow> date_or_datetime option \<Rightarrow> int option \<Rightarrow> error + OccurrenceTuple list" where
  "qs_all_occurrences st rr today self from_date to_date limit =
     (let qs = for_period st self from_date to_date;
          generators = map (\<lambda>obj. all_occurrences st rr today obj from_date to_date REPEAT_MAX) qs
      in case first_error generators of
           Some err \<Rightarrow> Inl err
         | None \<Rightarrow> Inr (combine_occurrences (map yielded generators) limit))"

section \<open>The repeating branch as a generator\<close>







section \<open>Validation: \<^verbatim>\<open>BaseOccurrence.clean\<close>\<close>

text \<open>
  \<^verbatim>\<open>clean\<close> raises \<^verbatim>\<open>ValidationError\<close> for a record that breaks one of the three
  invariants of the data model, checked in this order; \<open>None\<close> is a record that passes.
  \<^verbatim>\<open>self.start.date()\<close> is the date of the field value as it stands: for a row as
  Django loads it with \<^verbatim>\<open>USE_TZ\<close> set, the date in UTC.
\<close>

datatype ValidationError = EndNotAfterStart | UntilWithoutRepeat | UntilBeforeStart

definition clean :: "BaseOccurrence \<Rightarrow> ValidationError option" where
  "clean self =
     (if (case (start self, end_dt self) of (Some s, Some e) \<Rightarrow> s \<ge> e | _ \<Rightarrow> False)
      then Some EndNotAfterStart
      else if repeat_until self \<noteq> None \<and> repeat self = []
      then Some UntilWithoutRepeat
      else if (case (start self, repeat_until self) of
                 (Some s, Some u) \<Rightarrow> u < date_of s | _ \<Rightarrow> False)
      then Some UntilBeforeStart
      else None)"

section \<open>Example inputs\<close>

text \<open>
  Four settings: time zone support off; on with the time zone UTC; on with a time zone
  six hours behind UTC; and off with that time zone.
\<close>

definition naive_settings :: settings where
  "naive_settings = \<lparr>USE_TZ = False, tz_offset = 0\<rparr>"


definition utc_minus_6 :: settings where
  "utc_minus_6 = \<lparr>USE_TZ = True, tz_offset = - 21600000000\<rparr>"


text \<open>The fourth of November 2026, as \<^verbatim>\<open>date.today()\<close>.\<close>

definition today0 :: date where
  "today0 = 739924"

text \<open>A daily event from 10:00 to 11:00 whose start is not set.\<close>

definition no_start :: BaseOccurrence where
  "no_start = \<lparr>pk = 0, start = None, end_dt = Some 63839790000000000,
                repeat = ''RRULE:FREQ=DAILY'', repeat_until = None\<rparr>"

text \<open>A single event on 2024-01-01 from 10:00 to 11:00.\<close>

definition scenario_a :: BaseOccurrence where
  "scenario_a = \<lparr>pk = 1, start = Some 63839786400000000, end_dt = Some 63839790000000000,
                  repeat = [], repeat_until = None\<rparr>"

text \<open>A weekly event from 2024-01-01 09:00, with no end and no last day.\<close>

definition scenario_b :: BaseOccurrence where
  "scenario_b = \<lparr>pk = 2, start = Some 63839782800000000, end_dt = None,
                  repeat = ''RRULE:FREQ=WEEKLY'', repeat_until = None\<rparr>"

text \<open>A single event whose end (09:00) is before its start (10:00), on 2024-01-01.\<close>

definition reversed_span :: BaseOccurrence where
  "reversed_span = \<lparr>pk = 3, start = Some 63839786400000000, end_dt = Some 63839782800000000,
                     repeat = [], repeat_until = None\<rparr>"



text \<open>
  A nightly event from 22:00 to 02:00 of the next day, every day from 2024-01-01 to
  2024-01-08.
\<close>

definition nightly :: BaseOccurrence where
  "nightly = \<lparr>pk = 6, start = Some 63839829600000000, end_dt = Some 63839844000000000,
               repeat = ''RRULE:FREQ=DAILY'', repeat_until = Some 738893\<rparr>"

text \<open>A daily event from 2024-01-01 09:00, the start of the weekly one.\<close>

definition daily :: BaseOccurrence where
  "daily = \<lparr>pk = 7, start = Some 63839782800000000, end_dt = None,
             repeat = ''RRULE:FREQ=DAILY'', repeat_until = None\<rparr>"

text \<open>A daily event from 2024-01-02 09:00.\<close>

definition daily_from_second :: BaseOccurrence where
  "daily_from_second = \<lparr>pk = 8, start = Some 63839869200000000, end_dt = None,
                         repeat = ''RRULE:FREQ=DAILY'', repeat_until = None\<rparr>"





text \<open>
  The first three occurrences of the weekly event and of the daily event between
  2024-01-01 and 2024-01-20: two sequences that both begin at 2024-01-01 09:00.
\<close>

definition weekly_and_daily :: "OccurrenceTuple list list" where
  "weekly_and_daily =
     [yielded (all_occurrences naive_settings interval_rrule today0 scenario_b
        (Some (Date 738886)) (Some (Date 738905)) 3),
      yielded (all_occurrences naive_settings interval_rrule today0 daily
        (Some (Date 738886)) (Some (Date 738905)) 3)]"

text \<open>
  Two sequences of which the first is not sorted: the occurrences of the daily event of
  2024-01-03 and 2024-01-02, in this order, and the occurrence of 2024-01-02 of the
  daily event that starts on that day.
\<close>

definition unsorted_inputs :: "OccurrenceTuple list list" where
  "unsorted_inputs =
     [[OccurrenceTuple 63839955600000000 (Some 63839955600000000) daily,
       OccurrenceTuple 63839869200000000 (Some 63839869200000000) daily],
      [OccurrenceTuple 63839869200000000 (Some 63839869200000000) daily_from_second]]"

section \<open>The datetimes of one run\<close>

text \<open>
  Field values and the bounds that \<^verbatim>\<open>as_datetime\<close> returns are aware if \<^verbatim>\<open>USE_TZ\<close> is
  set; without it they are naive, unless the caller gave an aware bound. Datetimes of one
  kind are compared by their numbers, and \<^verbatim>\<open>default_naive\<close> takes a datetime of the run
  to its wall clock in the current time zone.
\<close>

lemma is_naive_iff: "is_naive dt \<longleftrightarrow> \<not> is_aware dt"
  by (cases dt) (simp_all add: is_naive_def is_aware_def)

lemma from_db_simps: "is_aware (from_db st x) = USE_TZ st" "stamp (from_db st x) = x"
  by (simp_all add: from_db_def is_aware_def stamp_def)

lemma dt_add_simps: "is_aware (dt_add dt d) = is_aware dt" "stamp (dt_add dt d) = stamp dt + d"
  by (cases dt; simp add: dt_add_def is_aware_def stamp_def)+

lemma default_aware_Naive:
  "is_aware (default_aware st (Naive w)) = USE_TZ st"
  "stamp (default_aware st (Naive w)) = (if USE_TZ st then w - tz_offset st else w)"
  by (simp_all add: default_aware_def make_aware_def is_naive_def is_aware_def stamp_def)

lemma default_naive_run:
  "is_aware dt = USE_TZ st \<Longrightarrow> is_naive (default_naive st dt)"
  "is_aware dt = USE_TZ st \<Longrightarrow>
     stamp (default_naive st dt) = (if USE_TZ st then stamp dt + tz_offset st else stamp dt)"
  by (cases dt; simp add: default_naive_def make_naive_def is_naive_def is_aware_def stamp_def)+

lemma as_datetime_aware:
  "comparable st (Some d) \<Longrightarrow> is_aware (as_datetime st d flag) = USE_TZ st"
  by (cases d)
     (auto simp: comparable_def as_datetime_def default_aware_def make_aware_def
        is_naive_def is_aware_def split: datetime.splits)

lemma bound_aware:
  assumes "comparable st bound" and "map_option (\<lambda>d. as_datetime st d flag) bound = Some x"
  shows "is_aware x = USE_TZ st"
  using assms as_datetime_aware [of st _ flag] by (cases bound) auto

lemma dt_le_run: "is_aware a = is_aware b \<Longrightarrow> dt_le a b = Inr (stamp a \<le> stamp b)"
  by (simp add: dt_le_def)

lemma dt_less_run: "is_aware a = is_aware b \<Longrightarrow> dt_less a b = Inr (stamp a < stamp b)"
  by (simp add: dt_less_def)

section \<open>Records without a start\<close>

text \<open>
  C9. A record whose \<^verbatim>\<open>start\<close> is not set yields no occurrence and raises no error,
  whatever the bounds, the limit and the settings.
\<close>

theorem all_occurrences_no_start:
  "start self = None \<Longrightarrow> all_occurrences st rr today self from_date to_date limit = Inr []"
  by (simp add: all_occurrences_def)

theorem all_occurrences_no_start_witness:
  "start no_start = None \<and>
   all_occurrences utc_minus_6 interval_rrule today0 no_start
     (Some (Date 738886)) (Some (Datetime (Naive 63840443400000000))) 200 = Inr []"
proof -
  have h: "start no_start = None"
    by (simp add: no_start_def)
  from all_occurrences_no_start [OF h, of utc_minus_6 interval_rrule today0
      "Some (Date 738886)" "Some (Datetime (Naive 63840443400000000))" 200] h
  show ?thesis by blast
qed

section \<open>The concrete capability\<close>

lemma fixed_interval_ascending:
  "0 < step \<Longrightarrow> sorted_wrt (<) (fixed_interval_between step dtstart a b)"
  unfolding fixed_interval_between_def
  by (intro sorted_wrt_filter) (simp add: sorted_wrt_map sorted_wrt_iff_nth_less)

lemma fixed_interval_within:
  assumes "0 < step"
  shows "list_all (\<lambda>t. a \<le> t \<and> t \<le> b) (fixed_interval_between step dtstart a b)"
proof -
  have "dtstart + int k * step \<le> b" if "k < nat ((b - dtstart) div step + 1)" for k
  proof -
    from that have "int k \<le> (b - dtstart) div step" by linarith
    then have "int k * step \<le> ((b - dtstart) div step) * step"
      using assms by (simp add: mult_right_mono)
    also have "\<dots> \<le> b - dtstart"
      using assms pos_mod_sign [of step "b - dtstart"] div_mult_mod_eq [of "b - dtstart" step]
      by linarith
    finally show ?thesis by simp
  qed
  then show ?thesis
    unfolding fixed_interval_between_def by (auto simp: list_all_iff)
qed


lemma interval_rrule_ascending: "rr_ascending interval_rrule"
  by (simp add: rr_ascending_def interval_rrule_def fixed_interval_ascending day_us_def)

lemma interval_rrule_within: "rr_within interval_rrule"
  by (simp add: rr_within_def interval_rrule_def fixed_interval_within day_us_def)


section \<open>Records without a repeat rule\<close>

text \<open>The test of the branch, on datetimes of one kind.\<close>

lemma in_range_run:
  assumes "\<And>f. from_date = Some f \<Longrightarrow> is_aware f = USE_TZ st"
    and "\<And>t. to_date = Some t \<Longrightarrow> is_aware t = USE_TZ st"
  shows "in_range (from_db st s) (map_option (from_db st) e) from_date to_date =
     Inr ((case from_date of None \<Rightarrow> True
           | Some f \<Rightarrow> stamp f \<le> s \<or> (case e of None \<Rightarrow> False | Some e' \<Rightarrow> stamp f \<le> e')) \<and>
          (case to_date of None \<Rightarrow> True | Some t \<Rightarrow> s \<le> stamp t))"
proof -
  have f: "from_test (from_db st s) (map_option (from_db st) e) from_date =
      Inr (case from_date of None \<Rightarrow> True
           | Some f \<Rightarrow> stamp f \<le> s \<or> (case e of None \<Rightarrow> False | Some e' \<Rightarrow> stamp f \<le> e'))"
    using assms(1)
    by (cases from_date; cases e)
       (auto simp: from_test_def dt_le_run from_db_simps split: bool.split)
  have t: "to_test (from_db st s) to_date = Inr (case to_date of None \<Rightarrow> True | Some t \<Rightarrow> s \<le> stamp t)"
    using assms(2) by (cases to_date) (auto simp: to_test_def dt_le_run from_db_simps)
  show ?thesis
    by (simp add: in_range_def f t split: bool.split)
qed

text \<open>
  C2, as amended. For every record with a start and an empty repeat rule whose end, when
  present, is not before its start, and for any bounds (each possibly absent) that the
  code can compare with the datetimes of the record, \<^verbatim>\<open>all_occurrences\<close> yields exactly
  the one occurrence (start, end) if the span intersects the range under the inclusive
  test of the specification (the end, or the start if there is no end, is not before the
  lower bound, and the start is not after the upper bound), and yields nothing
  otherwise. The bounds are compared after \<^verbatim>\<open>as_datetime\<close>: a bare date stands for
  0:00:00 as a lower and 23:59:59 as an upper bound, in the current time zone if
  \<^verbatim>\<open>USE_TZ\<close> is set.
\<close>

theorem all_occurrences_single:
  assumes "start self = Some s" and "repeat self = []"
    and "case end_dt self of None \<Rightarrow> True | Some e \<Rightarrow> s \<le> e"
    and "comparable st from_date" and "comparable st to_date"
  shows "all_occurrences st rr today self from_date to_date limit =
     Inr (if spec_intersects s (end_dt self)
               (map_option (\<lambda>d. stamp (as_datetime st d False)) from_date)
               (map_option (\<lambda>d. stamp (as_datetime st d True)) to_date)
          then [OccurrenceTuple s (end_dt self) self] else [])"
proof -
  define F where "F = map_option (\<lambda>d. as_datetime st d False) from_date"
  define T where "T = map_option (\<lambda>d. as_datetime st d True) to_date"
  have range: "in_range (from_db st s) (map_option (from_db st) (end_dt self)) F T =
     Inr ((case F of None \<Rightarrow> True
           | Some f \<Rightarrow> stamp f \<le> s \<or> (case end_dt self of None \<Rightarrow> False | Some e' \<Rightarrow> stamp f \<le> e')) \<and>
          (case T of None \<Rightarrow> True | Some t \<Rightarrow> s \<le> stamp t))"
    using bound_aware [OF assms(4)] bound_aware [OF assms(5)]
    by (intro in_range_run) (auto simp: F_def T_def)
  have "((case F of None \<Rightarrow> True
           | Some f \<Rightarrow> stamp f \<le> s \<or> (case end_dt self of None \<Rightarrow> False | Some e' \<Rightarrow> stamp f \<le> e')) \<and>
          (case T of None \<Rightarrow> True | Some t \<Rightarrow> s \<le> stamp t)) =
        spec_intersects s (end_dt self)
               (map_option (\<lambda>d. stamp (as_datetime st d False)) from_date)
               (map_option (\<lambda>d. stamp (as_datetime st d True)) to_date)"
    using assms(3)
    by (cases from_date; cases to_date; cases "end_dt self")
       (auto simp: F_def T_def spec_intersects_def)
  with range show ?thesis
    using assms(1,2)
    by (simp add: all_occurrences_def F_def T_def occurrence_data_def Let_def split: bool.split)
qed

text \<open>
  The event of 2024-01-01 from 10:00 to 11:00, asked for the range from 2024-01-01 to
  2024-01-02, yields its one occurrence.
\<close>

theorem all_occurrences_single_witness:
  "start scenario_a = Some 63839786400000000 \<and> repeat scenario_a = [] \<and>
   comparable naive_settings (Some (Date 738886)) \<and>
   comparable naive_settings (Some (Date 738887)) \<and>
   all_occurrences naive_settings interval_rrule today0 scenario_a
     (Some (Date 738886)) (Some (Date 738887)) REPEAT_MAX =
   Inr [OccurrenceTuple 63839786400000000 (Some 63839790000000000) scenario_a]"
proof -
  have h1: "start scenario_a = Some 63839786400000000"
    by (simp add: scenario_a_def)
  have h2: "repeat scenario_a = []"
    by (simp add: scenario_a_def)
  have h3: "case end_dt scenario_a of None \<Rightarrow> True | Some e \<Rightarrow> 63839786400000000 \<le> e"
    by (simp add: scenario_a_def)
  have h4: "comparable naive_settings (Some (Date 738886))"
    by (simp add: comparable_def)
  have h5: "comparable naive_settings (Some (Date 738887))"
    by (simp add: comparable_def)
  have e: "end_dt scenario_a = Some 63839790000000000"
    by (simp add: scenario_a_def)
  have "spec_intersects 63839786400000000 (end_dt scenario_a)
          (map_option (\<lambda>d. stamp (as_datetime naive_settings d False)) (Some (Date 738886)))
          (map_option (\<lambda>d. stamp (as_datetime naive_settings d True)) (Some (Date 738887)))"
    by code_simp
  with all_occurrences_single [OF h1 h2 h3 h4 h5, of interval_rrule today0 REPEAT_MAX]
    h1 h2 h4 h5 e
  show ?thesis by simp
qed

text \<open>
  The claim as stated, for every definition and any bounds. First, a record whose end
  (09:00) is before its start (10:00), which \<^verbatim>\<open>clean\<close> rejects, asked from 09:30 on:
  the end is before the lower bound, so the test of the specification fails, yet the
  code yields the occurrence because the start is not before the lower bound. Second,
  the event from 10:00 to 11:00 asked from an aware 10:00 on with \<^verbatim>\<open>USE_TZ\<close> not set: the
  comparison of the naive start with the aware bound raises \<^verbatim>\<open>TypeError\<close>, and nothing
  is yielded.
\<close>

theorem all_occurrences_single_counterexample:
  "clean reversed_span = Some EndNotAfterStart \<and>
   \<not> spec_intersects 63839786400000000 (Some 63839782800000000) (Some 63839784600000000) None \<and>
   all_occurrences naive_settings interval_rrule today0 reversed_span
     (Some (Datetime (Naive 63839784600000000))) None REPEAT_MAX =
   Inr [OccurrenceTuple 63839786400000000 (Some 63839782800000000) reversed_span] \<and>
   spec_intersects 63839786400000000 (Some 63839790000000000) (Some 63839786400000000) None \<and>
   all_occurrences naive_settings interval_rrule today0 scenario_a
     (Some (Datetime (Aware 63839786400000000))) None REPEAT_MAX =
   Inl TypeError"
  by code_simp

section \<open>Records with a repeat rule\<close>

text \<open>
  The loop yields one occurrence for each of the first \<open>limit - count\<close> instants, and
  \<^verbatim>\<open>default_aware\<close> keeps their order. A run on a record with a repeat rule raises
  \<^verbatim>\<open>TypeError\<close> or yields the occurrences of the list that the capability returns.
\<close>

lemma repeat_loop_take:
  "repeat_loop st limit c delta self ts =
     map (\<lambda>t. OccurrenceTuple (stamp (default_aware st (Naive t)))
                (Some (stamp (default_aware st (Naive t)) + delta)) self)
       (take (nat (limit - c)) ts)"
proof (induction ts arbitrary: c)
  case Nil
  then show ?case by simp
next
  case (Cons t ts)
  show ?case
  proof (cases "c + 1 > limit")
    case True
    then show ?thesis by simp
  next
    case False
    then have "nat (limit - c) = Suc (nat (limit - (c + 1)))" by simp
    with False Cons show ?thesis
      by (simp add: occurrence_data_def dt_add_simps)
  qed
qed

lemma default_aware_ascending:
  "sorted_wrt (<) ts \<Longrightarrow> sorted_wrt (<) (map (\<lambda>t. stamp (default_aware st (Naive t))) ts)"
  by (simp add: sorted_wrt_map default_aware_Naive)

lemma default_naive_default_aware:
  "default_naive st (default_aware st (Naive w)) = Naive w"
  by (simp add: default_naive_def default_aware_def make_naive_def make_aware_def
        is_naive_def is_aware_def stamp_def)

lemma all_occurrences_repeat_cases:
  assumes "start self = Some s" and "repeat self \<noteq> []"
  shows "all_occurrences st rr today self from_date to_date limit = Inl TypeError \<or>
    (\<exists>a b. search_from st self s (map_option (\<lambda>d. as_datetime st d False) from_date) = Inr a \<and>
            search_to st today self (map_option (\<lambda>d. as_datetime st d True) to_date) = Inr b \<and>
            all_occurrences st rr today self from_date to_date limit =
              Inr (repeat_loop st limit 0 (occ_delta self s) self
                     (rr (repeat self) (stamp (default_naive st (from_db st s)))
                        (stamp (default_naive st a)) (stamp (default_naive st b)))))"
proof -
  have err: "err = TypeError" for err :: error
    by (cases err) simp
  show ?thesis
    using assms
    by (auto simp: all_occurrences_def repeater_between_def err split: sum.splits)
qed

text \<open>
  C3. For every record with a non-empty repeat rule and every limit \<open>N\<close>,
  \<^verbatim>\<open>all_occurrences\<close> yields at most \<open>N\<close> occurrences (none when \<open>N\<close> is negative), and
  their starts are strictly ascending, provided the rule-expansion capability returns
  strictly ascending instants.
\<close>

theorem all_occurrences_repeat_bounded_ascending:
  assumes "repeat self \<noteq> []" and "rr_ascending rr"
  shows "length (yielded (all_occurrences st rr today self from_date to_date N)) \<le> nat N \<and>
         sorted_wrt (<)
           (map occ_start (yielded (all_occurrences st rr today self from_date to_date N)))"
proof (cases "start self")
  case None
  then show ?thesis by (simp add: all_occurrences_def yielded_def)
next
  case (Some s)
  from all_occurrences_repeat_cases [OF Some assms(1), of st rr today from_date to_date N]
  show ?thesis
  proof
    assume "all_occurrences st rr today self from_date to_date N = Inl TypeError"
    then show ?thesis by (simp add: yielded_def)
  next
    assume "\<exists>a b. search_from st self s (map_option (\<lambda>d. as_datetime st d False) from_date) = Inr a \<and>
            search_to st today self (map_option (\<lambda>d. as_datetime st d True) to_date) = Inr b \<and>
            all_occurrences st rr today self from_date to_date N =
              Inr (repeat_loop st N 0 (occ_delta self s) self
                     (rr (repeat self) (stamp (default_naive st (from_db st s)))
                        (stamp (default_naive st a)) (stamp (default_naive st b))))"
    then obtain a b where ab: "all_occurrences st rr today self from_date to_date N =
              Inr (repeat_loop st N 0 (occ_delta self s) self
                     (rr (repeat self) (stamp (default_naive st (from_db st s)))
                        (stamp (default_naive st a)) (stamp (default_naive st b))))"
      by blast
    define ts where "ts = rr (repeat self) (stamp (default_naive st (from_db st s)))
                        (stamp (default_naive st a)) (stamp (default_naive st b))"
    have ts: "sorted_wrt (<) ts"
      using assms(2) by (simp add: ts_def rr_ascending_def)
    have occs: "all_occurrences st rr today self from_date to_date N =
                 Inr (repeat_loop st N 0 (occ_delta self s) self ts)"
      using ab by (simp add: ts_def)
    from ts have "sorted_wrt (<) (take (nat N) ts)"
      by (rule sorted_wrt_take)
    then have "sorted_wrt (<) (map (\<lambda>t. stamp (default_aware st (Naive t))) (take (nat N) ts))"
      by (rule default_aware_ascending)
    then show ?thesis
      by (simp add: occs yielded_def repeat_loop_take comp_def)
  qed
qed

text \<open>
  The weekly event from 2024-01-01 09:00, asked for the range from 2024-01-01 to
  2024-03-01 with the limit 3: the repeater returns nine instants, three occurrences are
  yielded, on January 1, 8 and 15.
\<close>

theorem all_occurrences_repeat_bounded_ascending_witness:
  "repeat scenario_b \<noteq> [] \<and> rr_ascending interval_rrule \<and>
   length (yielded (all_occurrences naive_settings interval_rrule today0 scenario_b
             (Some (Date 738886)) (Some (Date 738946)) 3)) \<le> nat 3 \<and>
   sorted_wrt (<) (map occ_start (yielded (all_occurrences naive_settings interval_rrule today0
             scenario_b (Some (Date 738886)) (Some (Date 738946)) 3))) \<and>
   map occ_start (yielded (all_occurrences naive_settings interval_rrule today0 scenario_b
             (Some (Date 738886)) (Some (Date 738946)) 3)) =
   [63839782800000000, 63840387600000000, 63840992400000000]"
proof -
  have h1: "repeat scenario_b \<noteq> []"
    by (simp add: scenario_b_def)
  have starts: "map occ_start (yielded (all_occurrences naive_settings interval_rrule today0
             scenario_b (Some (Date 738886)) (Some (Date 738946)) 3)) =
      [63839782800000000, 63840387600000000, 63840992400000000]"
    by code_simp
  from all_occurrences_repeat_bounded_ascending [OF h1 interval_rrule_ascending,
      of naive_settings today0 "Some (Date 738886)" "Some (Date 738946)" 3]
    h1 interval_rrule_ascending starts
  show ?thesis by blast
qed

text \<open>
  The end of a day that is before the day of a wall clock is before that wall clock,
  taken to the whole second; and the upper search bound is not after the end of the
  \<^verbatim>\<open>repeat_until\<close> day.
\<close>

lemma search_to_default:
  "repeat_until self = None \<Longrightarrow>
   search_to st today self None = Inr (as_datetime st (Date (jan_first (year_of today + 10))) False)"
  by (simp add: search_to_def as_datetime_def max_future_date_def)

lemma search_from_run:
  assumes "comparable st from_date"
  shows "\<exists>a. search_from st self s (map_option (\<lambda>d. as_datetime st d False) from_date) = Inr a \<and>
             is_aware a = USE_TZ st \<and> s - occ_delta self s \<le> stamp a"
proof (cases from_date)
  case None
  then show ?thesis by (simp add: search_from_def dt_add_simps from_db_simps)
next
  case (Some d)
  with assms have "is_aware (as_datetime st d False) = USE_TZ st"
    by (simp add: as_datetime_aware)
  with Some show ?thesis
    by (simp add: search_from_def dt_less_run dt_add_simps from_db_simps)
qed











text \<open>
  C8. For every record with a non-empty repeat rule and no \<^verbatim>\<open>repeat_until\<close>, expanded
  with no \<^verbatim>\<open>to_date\<close>, the upper search bound is January 1, 0:00, of the year ten years
  after the current year (in the current time zone if \<^verbatim>\<open>USE_TZ\<close> is set); for a lower
  bound that the code can compare, the capability is asked for the instants up to that
  wall clock; and no occurrence yielded starts after it, provided the capability returns
  instants within the bounds it is given.
\<close>

theorem far_future_ceiling:
  assumes "repeat self \<noteq> []" and "repeat_until self = None" and "rr_within rr"
  shows "search_to st today self None =
           Inr (as_datetime st (Date (jan_first (year_of today + 10))) False) \<and>
         (\<forall>s. start self = Some s \<and> comparable st from_date \<longrightarrow>
            (\<exists>a. search_from st self s (map_option (\<lambda>d. as_datetime st d False) from_date) = Inr a \<and>
                 all_occurrences st rr today self from_date None limit =
                 Inr (repeat_loop st limit 0 (occ_delta self s) self
                        (rr (repeat self) (stamp (default_naive st (from_db st s)))
                           (stamp (default_naive st a))
                           (jan_first (year_of today + 10) * day_us))))) \<and>
         list_all (\<lambda>occ. occ_start occ \<le>
                     stamp (as_datetime st (Date (jan_first (year_of today + 10))) False))
           (yielded (all_occurrences st rr today self from_date None limit))"
proof -
  define hi where "hi = jan_first (year_of today + 10) * day_us"
  have ceiling: "as_datetime st (Date (jan_first (year_of today + 10))) False =
      default_aware st (Naive hi)"
    by (simp add: as_datetime_def hi_def)
  have to: "search_to st today self None = Inr (default_aware st (Naive hi))"
    using search_to_default [OF assms(2)] by (simp add: ceiling)
  have naive_hi: "stamp (default_naive st (default_aware st (Naive hi))) = hi"
    by (simp add: default_naive_default_aware stamp_def)
  have run: "\<exists>a. search_from st self s (map_option (\<lambda>d. as_datetime st d False) from_date) = Inr a \<and>
         all_occurrences st rr today self from_date None limit =
         Inr (repeat_loop st limit 0 (occ_delta self s) self
                (rr (repeat self) (stamp (default_naive st (from_db st s)))
                   (stamp (default_naive st a)) hi))"
    if s: "start self = Some s" and c: "comparable st from_date" for s
  proof -
    from search_from_run [OF c] obtain a where
      a: "search_from st self s (map_option (\<lambda>d. as_datetime st d False) from_date) = Inr a"
      and aware: "is_aware a = USE_TZ st"
      by blast
    have "is_naive (default_naive st a)"
      using aware by (rule default_naive_run)
    moreover have "is_naive (default_naive st (default_aware st (Naive hi)))"
      by (simp add: default_naive_default_aware is_naive_def)
    ultimately show ?thesis
      using s assms(1) a to naive_hi
      by (simp add: all_occurrences_def repeater_between_def)
  qed
  have below: "list_all (\<lambda>occ. occ_start occ \<le> stamp (default_aware st (Naive hi)))
      (yielded (all_occurrences st rr today self from_date None limit))"
  proof (cases "start self")
    case None
    then show ?thesis by (simp add: all_occurrences_def yielded_def)
  next
    case (Some s)
    from all_occurrences_repeat_cases [OF Some assms(1), of st rr today from_date None limit]
    show ?thesis
    proof
      assume "all_occurrences st rr today self from_date None limit = Inl TypeError"
      then show ?thesis by (simp add: yielded_def)
    next
      assume "\<exists>a b. search_from st self s (map_option (\<lambda>d. as_datetime st d False) from_date) = Inr a \<and>
            search_to st today self (map_option (\<lambda>d. as_datetime st d True) None) = Inr b \<and>
            all_occurrences st rr today self from_date None limit =
              Inr (repeat_loop st limit 0 (occ_delta self s) self
                     (rr (repeat self) (stamp (default_naive st (from_db st s)))
                        (stamp (default_naive st a)) (stamp (default_naive st b))))"
      then obtain a where occs: "all_occurrences st rr today self from_date None limit =
              Inr (repeat_loop st limit 0 (occ_delta self s) self
                     (rr (repeat self) (stamp (default_naive st (from_db st s)))
                        (stamp (default_naive st a)) hi))"
        using to naive_hi by auto
      have "list_all (\<lambda>t. t \<le> hi)
          (rr (repeat self) (stamp (default_naive st (from_db st s))) (stamp (default_naive st a)) hi)"
        using assms(3) by (auto simp: rr_within_def list_all_iff)
      then have "list_all (\<lambda>t. stamp (default_aware st (Naive t)) \<le> stamp (default_aware st (Naive hi)))
          (rr (repeat self) (stamp (default_naive st (from_db st s))) (stamp (default_naive st a)) hi)"
        by (simp add: default_aware_Naive list_all_iff)
      then show ?thesis
        by (auto simp: occs yielded_def repeat_loop_take list_all_iff dest: in_set_takeD)
    qed
  qed
  from to run below show ?thesis
    unfolding ceiling hi_def by blast
qed

text \<open>
  The weekly event expanded on 2026-11-04 with no bounds: no occurrence starts after
  2036-01-01 0:00.
\<close>

theorem far_future_ceiling_witness:
  "repeat scenario_b \<noteq> [] \<and> repeat_until scenario_b = None \<and> rr_within interval_rrule \<and>
   stamp (as_datetime naive_settings (Date (jan_first (year_of today0 + 10))) False) =
     64218441600000000 \<and>
   list_all (\<lambda>occ. occ_start occ \<le>
               stamp (as_datetime naive_settings (Date (jan_first (year_of today0 + 10))) False))
     (yielded (all_occurrences naive_settings interval_rrule today0 scenario_b None None 1000))"
proof -
  have h1: "repeat scenario_b \<noteq> []"
    by (simp add: scenario_b_def)
  have h2: "repeat_until scenario_b = None"
    by (simp add: scenario_b_def)
  have hi: "stamp (as_datetime naive_settings (Date (jan_first (year_of today0 + 10))) False) =
      64218441600000000"
    by code_simp
  from far_future_ceiling [OF h1 h2 interval_rrule_within, of naive_settings today0 None 1000]
    h1 h2 interval_rrule_within hi
  show ?thesis by blast
qed

section \<open>The approximate filter against the expansion\<close>

text \<open>
  C1. The claim is that \<^verbatim>\<open>filter_from\<close> keeps every valid record that has an
  occurrence intersecting the range. The nightly event, which \<^verbatim>\<open>clean\<close> accepts, is
  asked for the range from 2024-01-09 00:30 to 2024-01-20, with \<^verbatim>\<open>USE_TZ\<close> not set. Its
  last occurrence, from 2024-01-08 22:00 to 2024-01-09 02:00, is under way at the lower
  bound, and \<^verbatim>\<open>all_occurrences\<close> yields it, since it moves the lower search bound back
  by the length of an occurrence. \<^verbatim>\<open>filter_from\<close> compares the lower bound with the end
  of the first occurrence, with the start, and with \<^verbatim>\<open>repeat_until\<close>, all of which are
  before it, and drops the record; so do \<^verbatim>\<open>for_period\<close> and the expansion of the
  queryset.
\<close>

theorem filter_from_drops_ongoing_occurrence:
  "clean nightly = None \<and>
   all_occurrences naive_settings interval_rrule today0 nightly
     (Some (Datetime (Naive 63840443400000000))) (Some (Date 738905)) REPEAT_MAX =
   Inr [OccurrenceTuple 63840434400000000 (Some 63840448800000000) nightly] \<and>
   spec_intersects 63840434400000000 (Some 63840448800000000)
     (Some (stamp (as_datetime naive_settings (Datetime (Naive 63840443400000000)) False)))
     (Some (stamp (as_datetime naive_settings (Date 738905) True))) \<and>
   filter_from naive_settings [nightly] (Datetime (Naive 63840443400000000)) = [] \<and>
   for_period naive_settings [nightly]
     (Some (Datetime (Naive 63840443400000000))) (Some (Date 738905)) = [] \<and>
   qs_all_occurrences naive_settings interval_rrule today0 [nightly]
     (Some (Datetime (Naive 63840443400000000))) (Some (Date 738905)) None = Inr []"
  by code_simp

section \<open>The merge\<close>

lemma pop_least_None: "pop_least key its = None \<longleftrightarrow> concat its = []"
  by (induction key its rule: pop_least.induct) (auto split: option.splits)

text \<open>
  One step on sorted inputs: the value taken is the first in the order of the inputs
  among those of least key. Everything listed before it has a greater key, everything
  listed after it a key that is not less, and the inputs that remain are sorted.
\<close>

lemma pop_least_split:
  assumes "pop_least key its = Some (x, its')" and "\<forall>xs\<in>set its. sorted (map key xs)"
  shows "\<exists>A B. concat its = A @ x # B \<and> concat its' = A @ B \<and>
               (\<forall>a\<in>set A. key x < key a) \<and> (\<forall>b\<in>set B. key x \<le> key b) \<and>
               (\<forall>xs\<in>set its'. sorted (map key xs))"
  using assms
proof (induction key its arbitrary: x its' rule: pop_least.induct)
  case (1 key)
  then show ?case by simp
next
  case (2 key its)
  from "2.prems"(1) obtain its0 where
    p: "pop_least key its = Some (x, its0)" and its': "its' = [] # its0"
    by (auto split: option.splits)
  from "2.IH" [OF p] "2.prems"(2) obtain A B where
    "concat its = A @ x # B" "concat its0 = A @ B" "\<forall>a\<in>set A. key x < key a"
    "\<forall>b\<in>set B. key x \<le> key b" "\<forall>xs\<in>set its0. sorted (map key xs)"
    by auto
  then show ?case using its' by auto
next
  case (3 key y ys its)
  have sorted_ys: "sorted (map key (y # ys))"
    and sorted_its: "\<forall>xs\<in>set its. sorted (map key xs)"
    using "3.prems"(2) by auto
  show ?case
  proof (cases "pop_least key its")
    case None
    then have "concat its = []" by (simp add: pop_least_None)
    moreover from None "3.prems"(1) have "x = y" "its' = ys # its" by auto
    ultimately show ?thesis
      using sorted_ys sorted_its
      by (intro exI [of _ "[]"] exI [of _ "ys"]) auto
  next
    case (Some p)
    then obtain z its0 where p: "pop_least key its = Some (z, its0)" by (cases p) auto
    from "3.IH" [OF p sorted_its] obtain A B where AB:
      "concat its = A @ z # B" "concat its0 = A @ B" "\<forall>a\<in>set A. key z < key a"
      "\<forall>b\<in>set B. key z \<le> key b" "\<forall>xs\<in>set its0. sorted (map key xs)"
      by auto
    show ?thesis
    proof (cases "key y \<le> key z")
      case True
      with p "3.prems"(1) have eq: "x = y" "its' = ys # its" by auto
      have "\<forall>b\<in>set (ys @ concat its). key y \<le> key b"
        using sorted_ys AB True by (auto simp del: concat_eq_append_conv)
      then show ?thesis
        using eq sorted_ys sorted_its
        by (intro exI [of _ "[]"] exI [of _ "ys @ concat its"]) auto
    next
      case False
      with p "3.prems"(1) have eq: "x = z" "its' = (y # ys) # its0" by auto
      have "\<forall>a\<in>set ((y # ys) @ A). key z < key a"
        using sorted_ys AB False by fastforce
      then show ?thesis
        using eq sorted_ys AB
        by (intro exI [of _ "(y # ys) @ A"] exI [of _ B]) auto
    qed
  qed
qed

lemma heapq_merge_set:
  "\<forall>xs\<in>set its. sorted (map key xs) \<Longrightarrow> set (heapq_merge key its) = set (concat its)"
proof (induction key its rule: heapq_merge.induct)
  case (1 key its)
  show ?case
  proof (cases "pop_least key its")
    case None
    then have "concat its = []" by (simp only: pop_least_None)
    with None show ?thesis
      by (simp only: heapq_merge.simps [of key its] option.case list.set)
  next
    case (Some p)
    then obtain x its' where p: "pop_least key its = Some (x, its')" by (cases p) auto
    from pop_least_split [OF p "1.prems"] obtain A B where AB:
      "concat its = A @ x # B" "concat its' = A @ B" "\<forall>xs\<in>set its'. sorted (map key xs)"
      by blast
    from "1.IH" [OF p refl AB(3)] have "set (heapq_merge key its') = set (A @ B)"
      using AB(2) by simp
    then show ?thesis
      using p AB(1) by (simp add: heapq_merge.simps [of key its])
  qed
qed

lemma heapq_merge_length: "length (heapq_merge key its) = length (concat its)"
proof (induction key its rule: heapq_merge.induct)
  case (1 key its)
  show ?case
  proof (cases "pop_least key its")
    case None
    then have "concat its = []" by (simp only: pop_least_None)
    with None show ?thesis
      by (simp only: heapq_merge.simps [of key its] option.case list.size)
  next
    case (Some p)
    then obtain x its' where p: "pop_least key its = Some (x, its')" by (cases p) auto
    from "1.IH" [OF p refl] pop_least_length [OF p] show ?thesis
      using p by (simp add: heapq_merge.simps [of key its])
  qed
qed

lemma heapq_merge_sorted:
  "\<forall>xs\<in>set its. sorted (map key xs) \<Longrightarrow> sorted (map key (heapq_merge key its))"
proof (induction key its rule: heapq_merge.induct)
  case (1 key its)
  show ?case
  proof (cases "pop_least key its")
    case None
    then show ?thesis by (simp add: heapq_merge.simps [of key its])
  next
    case (Some p)
    then obtain x its' where p: "pop_least key its = Some (x, its')" by (cases p) auto
    from pop_least_split [OF p "1.prems"] obtain A B where AB:
      "concat its' = A @ B" "\<forall>a\<in>set A. key x < key a" "\<forall>b\<in>set B. key x \<le> key b"
      "\<forall>xs\<in>set its'. sorted (map key xs)"
      by blast
    have "\<forall>y\<in>set (heapq_merge key its'). key x \<le> key y"
      using heapq_merge_set [OF AB(4)] AB(1,2,3) by fastforce
    with "1.IH" [OF p refl AB(4)] show ?thesis
      using p by (simp add: heapq_merge.simps [of key its])
  qed
qed

lemma heapq_merge_stable:
  "\<forall>xs\<in>set its. sorted (map key xs) \<Longrightarrow>
   filter (\<lambda>a. key a = k) (heapq_merge key its) = filter (\<lambda>a. key a = k) (concat its)"
proof (induction key its rule: heapq_merge.induct)
  case (1 key its)
  show ?case
  proof (cases "pop_least key its")
    case None
    then have "concat its = []" by (simp only: pop_least_None)
    with None show ?thesis
      by (simp only: heapq_merge.simps [of key its] option.case filter.simps)
  next
    case (Some p)
    then obtain x its' where p: "pop_least key its = Some (x, its')" by (cases p) auto
    from pop_least_split [OF p "1.prems"] obtain A B where AB:
      "concat its = A @ x # B" "concat its' = A @ B" "\<forall>a\<in>set A. key x < key a"
      "\<forall>xs\<in>set its'. sorted (map key xs)"
      by blast
    have "key x = k \<Longrightarrow> filter (\<lambda>a. key a = k) A = []"
      using AB(3) by (auto simp: filter_empty_conv)
    with "1.IH" [OF p refl AB(4)] show ?thesis
      using p AB(1,2) by (simp add: heapq_merge.simps [of key its])
  qed
qed

lemma limit_loop_take: "limit_loop limit i xs = take (nat (limit - i)) xs"
proof (induction xs arbitrary: i)
  case Nil
  then show ?case by simp
next
  case (Cons x xs)
  show ?case
  proof (cases "i \<ge> limit")
    case True
    then show ?thesis by simp
  next
    case False
    then have "nat (limit - i) = Suc (nat (limit - (i + 1)))" by simp
    with False Cons show ?thesis by simp
  qed
qed

lemma filter_take_prefix:
  "filter P (take n xs) = take (length (filter P (take n xs))) (filter P xs)"
proof (induction xs arbitrary: n)
  case Nil
  then show ?case by simp
next
  case (Cons x xs)
  then show ?case by (cases n) auto
qed

text \<open>
  C4. For every collection of input sequences each sorted ascending by start,
  \<^verbatim>\<open>combine_occurrences\<close> produces a sequence sorted by start, with or without a limit;
  without a limit it produces every item of the inputs, and with a limit \<open>L\<close> exactly
  the minimum of \<open>L\<close> (zero when \<open>L\<close> is negative) and the total number of items.
\<close>

theorem combine_occurrences_sorted_limit:
  assumes "\<forall>g\<in>set generators. sorted (map occ_start g)"
  shows "sorted (map occ_start (combine_occurrences generators limit)) \<and>
         length (combine_occurrences generators None) = length (concat generators) \<and>
         length (combine_occurrences generators (Some L)) =
           min (nat L) (length (concat generators))"
proof -
  have merged: "sorted (map occ_start (heapq_merge occ_start generators))"
    using assms by (rule heapq_merge_sorted)
  have "sorted (map occ_start (combine_occurrences generators limit))"
  proof (cases limit)
    case None
    with merged show ?thesis by (simp add: combine_occurrences_def)
  next
    case (Some l)
    from merged have "sorted (take (nat l) (map occ_start (heapq_merge occ_start generators)))"
      by (rule sorted_wrt_take)
    with Some show ?thesis
      by (simp add: combine_occurrences_def limit_loop_take take_map)
  qed
  then show ?thesis
    by (simp add: combine_occurrences_def limit_loop_take heapq_merge_length min.commute)
qed

text \<open>
  The weekly and the daily event, three occurrences each, merged with the limit 4: the
  two occurrences of January 1, then the daily ones of January 2 and 3.
\<close>

theorem combine_occurrences_sorted_limit_witness:
  "list_all (\<lambda>g. sorted (map occ_start g)) weekly_and_daily \<and>
   sorted (map occ_start (combine_occurrences weekly_and_daily (Some 4))) \<and>
   length (combine_occurrences weekly_and_daily None) = length (concat weekly_and_daily) \<and>
   length (combine_occurrences weekly_and_daily (Some 4)) =
     min (nat 4) (length (concat weekly_and_daily)) \<and>
   map (\<lambda>occ. (occ_start occ, pk (occ_instance occ)))
     (combine_occurrences weekly_and_daily (Some 4)) =
   [(63839782800000000, 2), (63839782800000000, 7), (63839869200000000, 7),
    (63839955600000000, 7)]"
proof -
  have h: "list_all (\<lambda>g. sorted (map occ_start g)) weekly_and_daily"
    by code_simp
  then have h': "\<forall>g\<in>set weekly_and_daily. sorted (map occ_start g)"
    by (simp only: list_all_iff)
  have out: "map (\<lambda>occ. (occ_start occ, pk (occ_instance occ)))
       (combine_occurrences weekly_and_daily (Some 4)) =
     [(63839782800000000, 2), (63839782800000000, 7), (63839869200000000, 7),
      (63839955600000000, 7)]"
    by code_simp
  from combine_occurrences_sorted_limit [OF h', of "Some 4" 4] h out
  show ?thesis by blast
qed

text \<open>
  C10, as amended. For input sequences each sorted ascending by start, the occurrences
  of any one start instant \<open>k\<close> leave \<^verbatim>\<open>combine_occurrences\<close> in the order of the input
  sequences (and, within one sequence, in its own order): an occurrence of an
  earlier-listed sequence comes before an occurrence of a later-listed one with the
  same start. Under a limit the output is cut, so the occurrences of start \<open>k\<close> that are
  produced are a prefix of that order.
\<close>

theorem combine_occurrences_stable:
  assumes "\<forall>g\<in>set generators. sorted (map occ_start g)"
  shows "filter (\<lambda>occ. occ_start occ = k) (combine_occurrences generators None) =
           concat (map (filter (\<lambda>occ. occ_start occ = k)) generators) \<and>
         (\<exists>n. filter (\<lambda>occ. occ_start occ = k) (combine_occurrences generators (Some L)) =
           take n (concat (map (filter (\<lambda>occ. occ_start occ = k)) generators)))"
proof -
  have stable: "filter (\<lambda>occ. occ_start occ = k) (heapq_merge occ_start generators) =
      concat (map (filter (\<lambda>occ. occ_start occ = k)) generators)"
    using heapq_merge_stable [OF assms, of k] by (simp add: filter_concat)
  have "filter (\<lambda>occ. occ_start occ = k) (take (nat L) (heapq_merge occ_start generators)) =
      take (length (filter (\<lambda>occ. occ_start occ = k)
                      (take (nat L) (heapq_merge occ_start generators))))
        (concat (map (filter (\<lambda>occ. occ_start occ = k)) generators))"
    using filter_take_prefix [of "\<lambda>occ. occ_start occ = k" "nat L"
        "heapq_merge occ_start generators"]
    by (simp only: stable)
  then have "\<exists>n. filter (\<lambda>occ. occ_start occ = k) (combine_occurrences generators (Some L)) =
      take n (concat (map (filter (\<lambda>occ. occ_start occ = k)) generators))"
    unfolding combine_occurrences_def limit_loop_take
    by (simp only: Let_def option.case diff_0_right) blast
  with stable show ?thesis
    by (simp add: combine_occurrences_def)
qed

text \<open>
  The weekly event (primary key 2) is listed before the daily event (primary key 7);
  both have an occurrence at 2024-01-01 09:00, and the one of the weekly event comes
  first.
\<close>

theorem combine_occurrences_stable_witness:
  "list_all (\<lambda>g. sorted (map occ_start g)) weekly_and_daily \<and>
   filter (\<lambda>occ. occ_start occ = 63839782800000000) (combine_occurrences weekly_and_daily None) =
     concat (map (filter (\<lambda>occ. occ_start occ = 63839782800000000)) weekly_and_daily) \<and>
   map (\<lambda>occ. pk (occ_instance occ))
     (concat (map (filter (\<lambda>occ. occ_start occ = 63839782800000000)) weekly_and_daily)) =
   [2, 7]"
proof -
  have h: "list_all (\<lambda>g. sorted (map occ_start g)) weekly_and_daily"
    by code_simp
  then have h': "\<forall>g\<in>set weekly_and_daily. sorted (map occ_start g)"
    by (simp only: list_all_iff)
  have out: "map (\<lambda>occ. pk (occ_instance occ))
       (concat (map (filter (\<lambda>occ. occ_start occ = 63839782800000000)) weekly_and_daily)) =
     [2, 7]"
    by code_simp
  from combine_occurrences_stable [OF h', of 63839782800000000 0] h out
  show ?thesis by blast
qed

text \<open>
  The claim as stated, for any two input sequences that hold occurrences with equal
  starts: the first sequence lists the occurrences of 2024-01-03 and 2024-01-02 of the
  event with primary key 7, in this order, and the second the occurrence of 2024-01-02
  of the event with primary key 8. The merge compares the heads of the sequences only,
  so the occurrence of 2024-01-02 of the second sequence is yielded first, before the
  one of the first sequence with the same start.
\<close>

theorem combine_occurrences_unsorted_counterexample:
  "map (\<lambda>occ. (occ_start occ, pk (occ_instance occ))) (concat unsorted_inputs) =
     [(63839955600000000, 7), (63839869200000000, 7), (63839869200000000, 8)] \<and>
   map (\<lambda>occ. (occ_start occ, pk (occ_instance occ))) (combine_occurrences unsorted_inputs None) =
     [(63839869200000000, 8), (63839955600000000, 7), (63839869200000000, 7)] \<and>
   map (\<lambda>occ. pk (occ_instance occ))
     (filter (\<lambda>occ. occ_start occ = 63839869200000000)
        (combine_occurrences unsorted_inputs None)) = [8, 7]"
  by code_simp

section \<open>What the loop takes from the repeater\<close>





end
